theory Spec2Isabelle
  imports Main "HOL-Library.Sublist"
begin

section \<open>Data model (internal/config/config.go)\<close>

text \<open>
  Go strings are byte sequences; they are modelled as \<open>string\<close> (a list of 8-bit
  characters).  The structs of the configuration package become records with the
  field names of the source; where two structs share a field name the selector is
  written with its record prefix (\<open>Param.Name\<close>, \<open>Alias.Name\<close>).
\<close>

record Param =
  Name :: string
  Description :: string
  Required :: bool
  Default :: string

record Alias =
  Name :: string
  Command :: string
  Description :: string
  Params :: "Param list"

record Settings =
  Shell :: string
  Verbose :: bool

record Config =
  Version :: int
  Settings :: Settings
  Aliases :: "Alias list"

section \<open>Command parsing (internal/alias/parser.go)\<close>

text \<open>
  \<open>ParseError\<close> is the error struct of the parser: a message and the name of the
  offending parameter.
\<close>

datatype ParseError = ParseError (Message: string) (ParamName: string)

text \<open>
  \<open>strings.ReplaceAll s old new\<close> of the Go standard library: every non-overlapping
  instance of \<open>old\<close> in \<open>s\<close>, found from left to right, is replaced by \<open>new\<close>.
  The model covers a non-empty \<open>old\<close>, which is all that the parser passes (a
  placeholder has at least the four braces); for an empty \<open>old\<close> the library inserts
  \<open>new\<close> around every UTF-8 sequence, which is not modelled and leaves \<open>s\<close> as it is
  here.
\<close>

fun ReplaceAll :: "string \<Rightarrow> string \<Rightarrow> string \<Rightarrow> string" where
  "ReplaceAll [] old new = []"
| "ReplaceAll (c # cs) old new =
     (if old \<noteq> [] \<and> prefix old (c # cs)
      then new @ ReplaceAll (drop (length old) (c # cs)) old new
      else c # ReplaceAll cs old new)"

text \<open>\<open>fmt.Sprintf("{{%s}}", name)\<close>\<close>

definition placeholder :: "string \<Rightarrow> string" where
  "placeholder name = ''{{'' @ name @ ''}}''"

text \<open>
  First loop of \<open>ParseCommand\<close>: \<open>for i, param := range a.Params\<close>, storing
  \<open>args[i]\<close> under \<open>param.Name\<close> in the map \<open>provided\<close> while \<open>i < len(args)\<close>.
\<close>

fun bind_provided ::
  "nat \<Rightarrow> Param list \<Rightarrow> string list \<Rightarrow> (string \<rightharpoonup> string) \<Rightarrow> (string \<rightharpoonup> string)" where
  "bind_provided i [] args provided = provided"
| "bind_provided i (param # rest) args provided =
     bind_provided (Suc i) rest args
       (if i < length args then provided(Param.Name param \<mapsto> args ! i) else provided)"

text \<open>
  Second loop: the first parameter that is required and has no entry in \<open>provided\<close>
  ends the function with a \<open>ParseError\<close>.
\<close>

definition missing_required :: "string \<Rightarrow> ParseError" where
  "missing_required name = ParseError (''missing required parameter: '' @ name) name"

fun check_required :: "Param list \<Rightarrow> (string \<rightharpoonup> string) \<Rightarrow> ParseError option" where
  "check_required [] provided = None"
| "check_required (param # rest) provided =
     (if Required param \<and> provided (Param.Name param) = None
      then Some (missing_required (Param.Name param))
      else check_required rest provided)"

text \<open>
  Third loop: the value substituted for a parameter is its entry in \<open>provided\<close>, or
  its default when there is none; every occurrence of its placeholder in the command
  built so far is replaced.
\<close>

definition param_value :: "(string \<rightharpoonup> string) \<Rightarrow> Param \<Rightarrow> string" where
  "param_value provided param =
     (case provided (Param.Name param) of Some v \<Rightarrow> v | None \<Rightarrow> Default param)"

fun substitute :: "Param list \<Rightarrow> (string \<rightharpoonup> string) \<Rightarrow> string \<Rightarrow> string" where
  "substitute [] provided command = command"
| "substitute (param # rest) provided command =
     substitute rest provided
       (ReplaceAll command (placeholder (Param.Name param)) (param_value provided param))"

definition provided_of :: "Alias \<Rightarrow> string list \<Rightarrow> (string \<rightharpoonup> string)" where
  "provided_of a args = bind_provided 0 (Params a) args Map.empty"

definition ParseCommand :: "Alias \<Rightarrow> string list \<Rightarrow> ParseError + string" where
  "ParseCommand a args =
     (let provided = provided_of a args in
      case check_required (Params a) provided of
        Some e \<Rightarrow> Inl e
      | None \<Rightarrow> Inr (substitute (Params a) provided (Command a)))"

section \<open>Placeholder scanning (internal/alias/parser.go)\<close>

text \<open>
  \<open>paramPattern\<close> is the compiled regular expression \<^verbatim>\<open>\{\{(\w+)\}\}\<close>.  In Go's
  regexp syntax \<^verbatim>\<open>\w\<close> is the ASCII class \<^verbatim>\<open>[0-9A-Za-z_]\<close>.
\<close>

definition word_char :: "char \<Rightarrow> bool" where
  "word_char c =
     (let n = (of_char c :: nat) in
      (48 \<le> n \<and> n \<le> 57) \<or> (65 \<le> n \<and> n \<le> 90) \<or> n = 95 \<or> (97 \<le> n \<and> n \<le> 122))"

text \<open>
  A match of \<open>paramPattern\<close> that starts at the first byte of the input: two opening
  braces, the longest run of word characters (which must not be empty), two closing
  braces.  The result is the captured group and the input that follows the match.
  A closing brace is not a word character, so the greedy run is the only candidate
  for the group.
\<close>

definition match_param :: "string \<Rightarrow> (string \<times> string) option" where
  "match_param s =
     (if prefix ''{{'' s then
        (let body = drop 2 s;
             name = takeWhile word_char body;
             after = dropWhile word_char body
         in if name \<noteq> [] \<and> prefix ''}}'' after then Some (name, drop 2 after) else None)
      else None)"

text \<open>
  \<open>paramPattern.FindAllStringSubmatch(command, -1)\<close>: the successive non-overlapping
  matches, leftmost first; each match is the list of the whole match and the group.
  The search for the next match resumes where the previous match ended, and moves on
  by one byte where no match starts (a byte inside a multi-byte UTF-8 sequence is no
  brace, so this is the library's step over a whole code point).
\<close>

function FindAllStringSubmatch :: "string \<Rightarrow> string list list" where
  "FindAllStringSubmatch [] = []"
| "FindAllStringSubmatch (c # cs) =
     (case match_param (c # cs) of
        Some (name, rest) \<Rightarrow> [placeholder name, name] # FindAllStringSubmatch rest
      | None \<Rightarrow> FindAllStringSubmatch cs)"
  by pat_completeness auto
termination
proof (relation "measure length")
  fix c cs x name rest
  assume "match_param (c # cs) = Some x" and "(name, rest) = x"
  then have "rest = drop 2 (dropWhile word_char (drop 2 (c # cs)))"
    by (auto simp: match_param_def Let_def split: if_splits)
  moreover have "length (dropWhile word_char (drop 2 (c # cs))) \<le> length (drop 2 (c # cs))"
    by (rule length_dropWhile_le)
  ultimately show "(rest, c # cs) \<in> measure length" by simp
qed simp_all

text \<open>The loop of \<open>ExtractPlaceholders\<close> over the matches.\<close>

fun collect_names :: "string list list \<Rightarrow> string list" where
  "collect_names [] = []"
| "collect_names (match # matches) =
     (if length match \<ge> 2 then match ! 1 # collect_names matches
      else collect_names matches)"

definition ExtractPlaceholders :: "string \<Rightarrow> string list" where
  "ExtractPlaceholders command = collect_names (FindAllStringSubmatch command)"

section \<open>Configuration store (internal/config)\<close>

text \<open>
  What the operating system and the libraries answer is a parameter of the model: the
  environment variables and platform, the results of the YAML and file calls on given
  contents (\<open>None\<close> is a nil error), and what becomes of a child process started
  with a given argument vector on a given state of the file system.
\<close>

datatype child = Exited int | Signaled | NotStarted string

text \<open>
  The part of the file system that the package reads and writes: whether the
  configuration directory exists, and the contents of \<open>config.yaml\<close> in it
  (\<open>None\<close> when there is no such file).
\<close>

record disk =
  config_dir :: bool
  config_file :: "string option"

record env =
  GOOS :: string
  Getenv_SHELL :: string
  MkdirAll :: "string option"
  ReadInConfig :: "string \<Rightarrow> string option"
  Unmarshal :: "string \<Rightarrow> string option \<times> Config"
  Marshal :: "Config \<Rightarrow> string + string"
  WriteFile :: "string \<Rightarrow> string option"
  child_of :: "disk \<Rightarrow> string list \<Rightarrow> child"

text \<open>
  The package-level variables \<open>globalConfig\<close> (a pointer, \<open>None\<close> when nil) and
  \<open>loaded\<close>.  The mutex is not modelled: every function holds it from entry to
  return.
\<close>

record store =
  globalConfig :: "Config option"
  loaded :: bool

text \<open>A function of the source either returns or panics on a nil pointer.\<close>

datatype 'a result = Returns 'a | Panic

definition GetDefaultShell :: "env \<Rightarrow> string" where
  "GetDefaultShell e =
     (if Getenv_SHELL e \<noteq> [] then Getenv_SHELL e
      else if GOOS e = ''windows'' then ''cmd'' else ''/bin/sh'')"

text \<open>
  \<open>os.MkdirAll\<close> does nothing and returns nil when the directory exists; otherwise
  it creates it or fails.
\<close>

definition EnsureConfigDir :: "env \<Rightarrow> disk \<Rightarrow> string option \<times> disk" where
  "EnsureConfigDir e d =
     (if config_dir d then (None, d)
      else (case MkdirAll e of
              Some msg \<Rightarrow> (Some msg, d)
            | None \<Rightarrow> (None, d\<lparr>config_dir := True\<rparr>)))"

definition createDefaultConfig :: "env \<Rightarrow> Config" where
  "createDefaultConfig e =
     \<lparr>Version = 1,
      Settings = \<lparr>Settings.Shell = GetDefaultShell e, Settings.Verbose = False\<rparr>,
      Aliases =
        [\<lparr>Alias.Name = ''gs'', Command = ''git status'',
          Alias.Description = ''Show git status'', Params = []\<rparr>,
         \<lparr>Alias.Name = ''gc'', Command = ''git commit -am '' @ [CHR 0x22] @ ''{{message}}'' @ [CHR 0x22],
          Alias.Description = ''Git commit with message'',
          Params = [\<lparr>Param.Name = ''message'', Param.Description = ''Commit message'',
                     Required = True, Default = []\<rparr>]\<rparr>,
         \<lparr>Alias.Name = ''gp'', Command = ''git push origin {{branch}}'',
          Alias.Description = ''Push to remote branch'',
          Params = [\<lparr>Param.Name = ''branch'', Param.Description = ''Branch name'',
                     Required = False, Default = ''main''\<rparr>]\<rparr>]\<rparr>"

text \<open>
  \<open>saveInternal\<close> leaves the variables as they are; a successful write puts the
  marshalled configuration into \<open>config.yaml\<close> (a failed write is taken to leave the
  file as it was).
\<close>

definition saveInternal :: "env \<Rightarrow> store \<Rightarrow> disk \<Rightarrow> string option \<times> disk" where
  "saveInternal e st d =
     (case globalConfig st of
        None \<Rightarrow> (Some ''no configuration loaded'', d)
      | Some cfg \<Rightarrow>
          (case EnsureConfigDir e d of
             (Some msg, d1) \<Rightarrow> (Some (''failed to create config directory: '' @ msg), d1)
           | (None, d1) \<Rightarrow>
               (case Marshal e cfg of
                  Inl msg \<Rightarrow> (Some (''failed to marshal config: '' @ msg), d1)
                | Inr data \<Rightarrow>
                    (case WriteFile e data of
                       Some msg \<Rightarrow> (Some (''failed to write config file: '' @ msg), d1)
                     | None \<Rightarrow> (None, d1\<lparr>config_file := Some data\<rparr>)))))"

text \<open>
  \<open>os.Stat\<close> reports that the configuration file does not exist exactly when the
  file system holds none.
\<close>

definition loadInternal :: "env \<Rightarrow> store \<Rightarrow> disk \<Rightarrow> string option \<times> store \<times> disk" where
  "loadInternal e st d =
     (case EnsureConfigDir e d of
        (Some msg, d1) \<Rightarrow> (Some (''failed to create config directory: '' @ msg), st, d1)
      | (None, d1) \<Rightarrow>
          (case config_file d1 of
             None \<Rightarrow>
               (let st' = st\<lparr>globalConfig := Some (createDefaultConfig e), loaded := True\<rparr>
                in case saveInternal e st' d1 of (r, d2) \<Rightarrow> (r, st', d2))
           | Some contents \<Rightarrow>
               (case ReadInConfig e contents of
                  Some msg \<Rightarrow> (Some (''failed to read config file: '' @ msg), st, d1)
                | None \<Rightarrow>
                    (case Unmarshal e contents of
                       (Some msg, cfg) \<Rightarrow>
                         (Some (''failed to parse config file: '' @ msg),
                          st\<lparr>globalConfig := Some cfg\<rparr>, d1)
                     | (None, cfg) \<Rightarrow>
                         (None, st\<lparr>globalConfig := Some cfg, loaded := True\<rparr>, d1)))))"

definition ensureLoaded :: "env \<Rightarrow> store \<Rightarrow> disk \<Rightarrow> string option \<times> store \<times> disk" where
  "ensureLoaded e st d = (if \<not> loaded st then loadInternal e st d else (None, st, d))"

text \<open>
  \<open>Get\<close> returns the pointer and the error, and leaves the variables and the file
  system as the load left them.
\<close>

definition Get ::
  "env \<Rightarrow> store \<Rightarrow> disk \<Rightarrow> (Config option \<times> string option) \<times> store \<times> disk" where
  "Get e st d =
     (case ensureLoaded e st d of
        (Some msg, st', d') \<Rightarrow> ((None, Some msg), st', d')
      | (None, st', d') \<Rightarrow> ((globalConfig st', None), st', d'))"

definition already_exists :: "string \<Rightarrow> string" where
  "already_exists name = ''alias '' @ [CHR 0x27] @ name @ [CHR 0x27] @ '' already exists''"

definition AddAlias ::
  "env \<Rightarrow> store \<Rightarrow> disk \<Rightarrow> Alias \<Rightarrow> (string option \<times> store \<times> disk) result" where
  "AddAlias e st d alias =
     (case ensureLoaded e st d of
        (Some msg, st', d') \<Rightarrow> Returns (Some msg, st', d')
      | (None, st', d') \<Rightarrow>
          (case globalConfig st' of
             None \<Rightarrow> Panic
           | Some cfg \<Rightarrow>
               if list_ex (\<lambda>a. Alias.Name a = Alias.Name alias) (Aliases cfg)
               then Returns (Some (already_exists (Alias.Name alias)), st', d')
               else
                 (let st'' = st'\<lparr>globalConfig := Some (cfg\<lparr>Aliases := Aliases cfg @ [alias]\<rparr>)\<rparr>
                  in case saveInternal e st'' d' of (r, d'') \<Rightarrow> Returns (r, st'', d''))))"

section \<open>Command execution\<close>

record ExecuteOptions =
  Shell :: string
  Verbose :: bool
  DryRun :: bool

text \<open>
  The error value \<open>cmd.Run()\<close> returns, after the documentation of os/exec: nil when
  the command ran and exited with status zero, an \<open>*exec.ExitError\<close> when it started
  but did not complete successfully (its \<open>ExitCode()\<close> is the exit status, or \<open>-1\<close>
  when a signal ended the process), and another error when it could not be started.
\<close>

datatype run_error = ExitError int | StartError string

definition cmd_Run :: "child \<Rightarrow> run_error option" where
  "cmd_Run ch =
     (case ch of
        Exited n \<Rightarrow> if n = 0 then None else Some (ExitError n)
      | Signaled \<Rightarrow> Some (ExitError (- 1))
      | NotStarted msg \<Rightarrow> Some (StartError msg))"

text \<open>The error interface value a caller of \<open>Execute\<close> or \<open>Run\<close> receives.\<close>

datatype error = ParseFailure ParseError | Errorf string

text \<open>
  What a call leaves behind: the returned exit code and error, the text written to
  standard output, the argument vector of the command on which \<open>cmd.Run()\<close> was
  called (\<open>None\<close> when no command was created), the package-level variables, and
  the file system as the call's own reads and writes left it, which is the file system
  the child process found (what the child does to it is not modelled).
\<close>

record outcome =
  exit_code :: int
  err :: "error option"
  printed :: "string list"
  launched :: "string list option"
  store_after :: store
  disk_after :: disk

definition newline :: string where
  "newline = [CHR 0x0A]"

definition resolve_shell ::
  "env \<Rightarrow> store \<Rightarrow> disk \<Rightarrow> ExecuteOptions \<Rightarrow> (string \<times> store \<times> disk) result" where
  "resolve_shell e st d opts =
     (if ExecuteOptions.Shell opts = [] then
        (case Get e st d of
           ((cfg, None), st', d') \<Rightarrow>
             (case cfg of
                None \<Rightarrow> Panic
              | Some c \<Rightarrow>
                  Returns (if Settings.Shell (Settings c) \<noteq> [] then Settings.Shell (Settings c)
                           else GetDefaultShell e, st', d'))
         | ((cfg, Some msg), st', d') \<Rightarrow> Returns (GetDefaultShell e, st', d'))
      else Returns (ExecuteOptions.Shell opts, st, d))"

definition resolve_verbose ::
  "env \<Rightarrow> store \<Rightarrow> disk \<Rightarrow> ExecuteOptions \<Rightarrow> (bool \<times> store \<times> disk) result" where
  "resolve_verbose e st d opts =
     (if \<not> ExecuteOptions.Verbose opts then
        (case Get e st d of
           ((cfg, None), st', d') \<Rightarrow>
             (case cfg of
                None \<Rightarrow> Panic
              | Some c \<Rightarrow> Returns (Settings.Verbose (Settings c), st', d'))
         | ((cfg, Some msg), st', d') \<Rightarrow> Returns (False, st', d'))
      else Returns (True, st, d))"

text \<open>
  The body of \<open>Execute\<close> once the shell and the verbose setting are known: the
  verbose line, the dry-run return, the creation of the command for the platform, its
  run on the file system as it is by then, and the translation of the error that
  \<open>cmd.Run()\<close> returns.
\<close>

definition run_command ::
  "env \<Rightarrow> store \<Rightarrow> disk \<Rightarrow> string \<Rightarrow> bool \<Rightarrow> string \<Rightarrow> ExecuteOptions \<Rightarrow> outcome" where
  "run_command e st d shell verbose command opts =
     (let out = (if verbose then [''$ '' @ command @ newline] else [])
      in if DryRun opts then
           \<lparr>exit_code = 0, err = None,
            printed = out @ [''[dry-run] Would execute: '' @ command @ newline],
            launched = None, store_after = st, disk_after = d\<rparr>
         else
           (let argv = (if GOOS e = ''windows'' then [''cmd'', ''/C'', command]
                        else [shell, ''-c'', command])
            in case cmd_Run (child_of e d argv) of
                 None \<Rightarrow>
                   \<lparr>exit_code = 0, err = None, printed = out,
                    launched = Some argv, store_after = st, disk_after = d\<rparr>
               | Some (ExitError n) \<Rightarrow>
                   \<lparr>exit_code = n, err = None, printed = out,
                    launched = Some argv, store_after = st, disk_after = d\<rparr>
               | Some (StartError msg) \<Rightarrow>
                   \<lparr>exit_code = - 1,
                    err = Some (Errorf (''failed to execute command: '' @ msg)),
                    printed = out, launched = Some argv, store_after = st,
                    disk_after = d\<rparr>))"

definition Execute ::
  "env \<Rightarrow> store \<Rightarrow> disk \<Rightarrow> string \<Rightarrow> ExecuteOptions \<Rightarrow> outcome result" where
  "Execute e st d command opts =
     (case resolve_shell e st d opts of
        Panic \<Rightarrow> Panic
      | Returns (shell, st1, d1) \<Rightarrow>
          (case resolve_verbose e st1 d1 opts of
             Panic \<Rightarrow> Panic
           | Returns (verbose, st2, d2) \<Rightarrow>
               Returns (run_command e st2 d2 shell verbose command opts)))"

definition RunWithOptions ::
  "env \<Rightarrow> store \<Rightarrow> disk \<Rightarrow> Alias \<Rightarrow> string list \<Rightarrow> ExecuteOptions \<Rightarrow> outcome result" where
  "RunWithOptions e st d a args opts =
     (case ParseCommand a args of
        Inl perr \<Rightarrow>
          Returns \<lparr>exit_code = - 1, err = Some (ParseFailure perr), printed = [],
            launched = None, store_after = st, disk_after = d\<rparr>
      | Inr command \<Rightarrow> Execute e st d command opts)"

definition Run :: "env \<Rightarrow> store \<Rightarrow> disk \<Rightarrow> Alias \<Rightarrow> string list \<Rightarrow> outcome result" where
  "Run e st d a args =
     (case ParseCommand a args of
        Inl perr \<Rightarrow>
          Returns \<lparr>exit_code = - 1, err = Some (ParseFailure perr), printed = [],
            launched = None, store_after = st, disk_after = d\<rparr>
      | Inr command \<Rightarrow>
          Execute e st d command
            \<lparr>ExecuteOptions.Shell = [], ExecuteOptions.Verbose = False, DryRun = False\<rparr>)"

section \<open>Notions of the specification\<close>

text \<open>
  The required-parameter precondition in positional terms: no parameter beyond the
  last argument is required.
\<close>

definition required_supplied :: "Alias \<Rightarrow> string list \<Rightarrow> bool" where
  "required_supplied a args = (\<forall>p \<in> set (drop (length args) (Params a)). \<not> Required p)"

text \<open>
  A name received an argument when one of the parameters that have a positional
  argument carries it.  The unmet required parameters are the required ones whose name
  received none, in declaration order.
\<close>

definition named_in_args :: "Alias \<Rightarrow> string list \<Rightarrow> string \<Rightarrow> bool" where
  "named_in_args a args n = (n \<in> set (map Param.Name (take (length args) (Params a))))"

definition unmet_required :: "Alias \<Rightarrow> string list \<Rightarrow> Param list" where
  "unmet_required a args =
     filter (\<lambda>p. Required p \<and> \<not> named_in_args a args (Param.Name p)) (Params a)"

text \<open>
  Expansion as the specification describes it: for each parameter index in declaration
  order, every occurrence of the parameter's token in the command built so far is
  replaced by the value \<open>val i\<close> bound to that parameter.
\<close>

definition expand :: "string \<Rightarrow> Param list \<Rightarrow> (nat \<Rightarrow> string) \<Rightarrow> string" where
  "expand template ps val =
     foldl (\<lambda>command i. ReplaceAll command (placeholder (Param.Name (ps ! i))) (val i))
       template [0..<length ps]"

text \<open>
  Binding by position: the \<open>i\<close>-th argument when there is one, the default of the
  \<open>i\<close>-th parameter otherwise.
\<close>

definition positional_value :: "Param list \<Rightarrow> string list \<Rightarrow> nat \<Rightarrow> string" where
  "positional_value ps args i = (if i < length args then args ! i else Default (ps ! i))"

text \<open>
  Binding by name: the argument of the last parameter that has a positional argument
  and carries the name of the \<open>i\<close>-th parameter, and the default of the \<open>i\<close>-th
  parameter when no such parameter exists.
\<close>

definition named_value :: "Param list \<Rightarrow> string list \<Rightarrow> nat \<Rightarrow> string" where
  "named_value ps args i =
     (case find (\<lambda>j. Param.Name (ps ! j) = Param.Name (ps ! i))
             (rev [0..<min (length ps) (length args)]) of
        Some j \<Rightarrow> args ! j
      | None \<Rightarrow> Default (ps ! i))"

text \<open>
  A match of the placeholder pattern in the words of the specification: at position
  \<open>i\<close> of the template stand two opening braces, the non-empty run \<open>w\<close> of word
  characters and two closing braces.
\<close>

definition token_at :: "string \<Rightarrow> nat \<Rightarrow> string \<Rightarrow> bool" where
  "token_at t i w \<longleftrightarrow>
     w \<noteq> [] \<and> (\<forall>c \<in> set w. word_char c) \<and> take (length w + 4) (drop i t) = placeholder w"

text \<open>
  The identifiers of the non-overlapping matches from left to right: the leftmost match
  gives the first identifier, and the scan goes on behind that match.
\<close>

inductive matches :: "string \<Rightarrow> string list \<Rightarrow> bool" where
  no_match: "(\<forall>i w. \<not> token_at t i w) \<Longrightarrow> matches t []"
| leftmost: "token_at t i w \<Longrightarrow> (\<forall>j<i. \<forall>v. \<not> token_at t j v) \<Longrightarrow>
     matches (drop (i + length w + 4) t) ws \<Longrightarrow> matches t (w # ws)"

text \<open>
  The invariant of the package-level variables: once \<open>loaded\<close> is set,
  \<open>globalConfig\<close> is not nil.  It holds initially and every function keeps it.
\<close>

definition store_ok :: "store \<Rightarrow> bool" where
  "store_ok st = (loaded st \<longrightarrow> globalConfig st \<noteq> None)"


section \<open>Example aliases and environments\<close>

text \<open>
  The aliases \<open>gc\<close> and \<open>gp\<close> of the default configuration, and aliases whose
  parameters share a name: \<open>promptParams\<close> of the add command declares one parameter
  for every occurrence of a placeholder, so \<open>echo {{x}} {{x}}\<close> gets two parameters
  named \<open>x\<close>.
\<close>

definition gc :: Alias where
  "gc = \<lparr>Alias.Name = ''gc'',
          Command = ''git commit -am '' @ [CHR 0x22] @ ''{{message}}'' @ [CHR 0x22],
          Alias.Description = ''Git commit with message'',
          Params = [\<lparr>Param.Name = ''message'', Param.Description = ''Commit message'',
                     Required = True, Default = []\<rparr>]\<rparr>"

definition gp :: Alias where
  "gp = \<lparr>Alias.Name = ''gp'', Command = ''git push origin {{branch}}'',
          Alias.Description = ''Push to remote branch'',
          Params = [\<lparr>Param.Name = ''branch'', Param.Description = ''Branch name'',
                     Required = False, Default = ''main''\<rparr>]\<rparr>"

definition param_x :: Param where
  "param_x = \<lparr>Param.Name = ''x'', Param.Description = [], Required = True, Default = []\<rparr>"

definition echo_twice :: Alias where
  "echo_twice = \<lparr>Alias.Name = ''e'', Command = ''echo {{x}} {{x}}'',
     Alias.Description = [], Params = [param_x, param_x]\<rparr>"

definition echo_default :: Alias where
  "echo_default = \<lparr>Alias.Name = ''d'', Command = ''echo {{x}} {{x}}'',
     Alias.Description = [],
     Params = [\<lparr>Param.Name = ''x'', Param.Description = [], Required = False, Default = []\<rparr>,
               \<lparr>Param.Name = ''x'', Param.Description = [], Required = False,
                Default = ''main''\<rparr>]\<rparr>"

definition gs_flag :: Alias where
  "gs_flag = \<lparr>Alias.Name = ''gs'', Command = ''git status'', Alias.Description = [],
     Params = [\<lparr>Param.Name = ''flag'', Param.Description = [], Required = True,
                Default = []\<rparr>]\<rparr>"

definition copy_alias :: Alias where
  "copy_alias = \<lparr>Alias.Name = ''cp2'', Command = ''cp {{src}} {{dst}} && ls {{dst}}'',
     Alias.Description = [],
     Params = [\<lparr>Param.Name = ''src'', Param.Description = [], Required = True, Default = []\<rparr>,
               \<lparr>Param.Name = ''dst'', Param.Description = [], Required = True, Default = []\<rparr>,
               \<lparr>Param.Name = ''opt'', Param.Description = [], Required = False,
                Default = ''-l''\<rparr>]\<rparr>"

definition echo_x :: Alias where
  "echo_x = \<lparr>Alias.Name = ''echo'', Command = ''echo {{x}}'', Alias.Description = [],
     Params = [param_x]\<rparr>"

definition new_alias :: Alias where
  "new_alias = \<lparr>Alias.Name = ''ll'', Command = ''ls -l'', Alias.Description = [], Params = []\<rparr>"

text \<open>
  The state of a first run: nothing loaded, no configuration directory.  In the
  example environment every file-system and YAML call succeeds; the child of
  \<open>exit 2\<close> exits with status 2, the child that tests for the configuration file
  exits with 0 when the file exists and with 1 when it does not, and a shell that does
  not exist cannot be started.
\<close>

definition fresh_store :: store where
  "fresh_store = \<lparr>globalConfig = None, loaded = False\<rparr>"

definition empty_disk :: disk where
  "empty_disk = \<lparr>config_dir = False, config_file = None\<rparr>"

definition posix_env :: env where
  "posix_env =
     \<lparr>GOOS = ''linux'', Getenv_SHELL = ''/bin/bash'', MkdirAll = None,
      ReadInConfig = (\<lambda>contents. None),
      Unmarshal = (\<lambda>contents. (None, \<lparr>Version = 1,
                     Settings = \<lparr>Settings.Shell = [], Settings.Verbose = False\<rparr>,
                     Aliases = []\<rparr>)),
      Marshal = (\<lambda>cfg. Inr ''version: 1''), WriteFile = (\<lambda>data. None),
      child_of = (\<lambda>d argv.
         if argv = [''/bin/bash'', ''-c'', ''exit 2''] then Exited 2
         else if argv = [''/bin/bash'', ''-c'', ''test -e ~/.config/aliasly/config.yaml'']
         then (if config_file d = None then Exited 1 else Exited 0)
         else if argv = [''/nonexistent'', ''-c'', ''true'']
         then NotStarted ''fork/exec /nonexistent: no such file or directory''
         else Exited 0)\<rparr>"

definition saved_disk :: disk where
  "saved_disk = \<lparr>config_dir = True, config_file = Some ''version: 1''\<rparr>"

definition loaded_store :: store where
  "loaded_store = \<lparr>globalConfig = Some (createDefaultConfig posix_env), loaded = True\<rparr>"

definition opts_bash :: ExecuteOptions where
  "opts_bash =
     \<lparr>ExecuteOptions.Shell = ''/bin/bash'', ExecuteOptions.Verbose = True, DryRun = False\<rparr>"

definition opts_missing :: ExecuteOptions where
  "opts_missing =
     \<lparr>ExecuteOptions.Shell = ''/nonexistent'', ExecuteOptions.Verbose = True, DryRun = False\<rparr>"

definition dry_opts :: ExecuteOptions where
  "dry_opts = \<lparr>ExecuteOptions.Shell = [], ExecuteOptions.Verbose = False, DryRun = True\<rparr>"

lemmas example_defs = gc_def gp_def param_x_def echo_twice_def echo_default_def gs_flag_def
  copy_alias_def echo_x_def

lemmas parse_defs = ParseCommand_def provided_of_def param_value_def placeholder_def
  missing_required_def

lemmas execute_defs = Execute_def resolve_shell_def resolve_verbose_def run_command_def
  cmd_Run_def Get_def ensureLoaded_def loadInternal_def saveInternal_def EnsureConfigDir_def

section \<open>Properties of parameter binding\<close>

lemma bind_provided_take:
  "bind_provided i ps args m = bind_provided i ps (take (i + length ps) args) m"
proof (induction ps arbitrary: i m)
  case Nil
  show ?case by simp
next
  case (Cons p ps)
  let ?args' = "take (i + length (p # ps)) args"
  let ?m = "\<lambda>xs. if i < length xs then m(Param.Name p \<mapsto> xs ! i) else m"
  have same: "?m ?args' = ?m args" by simp
  have "bind_provided i (p # ps) args m = bind_provided (Suc i) ps args (?m args)"
    by simp
  also have "\<dots> = bind_provided (Suc i) ps ?args' (?m args)"
    using Cons.IH [of "Suc i" "?m args"] by simp
  also have "\<dots> = bind_provided (Suc i) ps ?args' (?m ?args')"
    by (simp only: same)
  also have "\<dots> = bind_provided i (p # ps) ?args' m"
    by (simp only: bind_provided.simps)
  finally show ?case .
qed

lemma bind_provided_append:
  "bind_provided i (ps @ qs) args m =
   bind_provided (i + length ps) qs args (bind_provided i ps args m)"
  by (induction ps arbitrary: i m) simp_all

text \<open>A name has no entry exactly when the map had none and no bound parameter carries it.\<close>

lemma bind_provided_None_iff:
  "bind_provided i ps args m n = None \<longleftrightarrow>
   m n = None \<and> n \<notin> Param.Name ` set (take (length args - i) ps)"
proof (induction ps arbitrary: i m)
  case Nil
  show ?case by simp
next
  case (Cons p ps)
  show ?case
  proof (cases "i < length args")
    case True
    then have "length args - i = Suc (length args - Suc i)" by simp
    then show ?thesis using True Cons.IH [of "Suc i"] by auto
  next
    case False
    then show ?thesis using Cons.IH [of "Suc i" m] by simp
  qed
qed

lemma provided_named: "provided_of a args n = None \<longleftrightarrow> \<not> named_in_args a args n"
  by (simp add: provided_of_def bind_provided_None_iff named_in_args_def)

lemma check_required_filter:
  "check_required ps m =
     (case filter (\<lambda>p. Required p \<and> m (Param.Name p) = None) ps of
        [] \<Rightarrow> None
      | q # _ \<Rightarrow> Some (missing_required (Param.Name q)))"
  by (induction ps) auto

lemma unmet_required_Nil:
  "unmet_required a args = [] \<Longrightarrow> check_required (Params a) (provided_of a args) = None"
  unfolding check_required_filter unmet_required_def provided_named by simp

lemma unmet_required_Cons:
  "unmet_required a args = q # rest \<Longrightarrow>
   check_required (Params a) (provided_of a args) = Some (missing_required (Param.Name q))"
  unfolding check_required_filter unmet_required_def provided_named by simp

lemma required_supplied_unmet:
  assumes "required_supplied a args"
  shows "unmet_required a args = []"
proof -
  have "Param.Name p \<in> set (map Param.Name (take (length args) (Params a)))"
    if "p \<in> set (Params a)" and "Required p" for p
  proof -
    have "p \<in> set (take (length args) (Params a)) \<union> set (drop (length args) (Params a))"
      using that(1) by (metis append_take_drop_id set_append)
    then have "p \<in> set (take (length args) (Params a))"
      using assms that(2) by (auto simp: required_supplied_def)
    then show ?thesis by simp
  qed
  then show ?thesis by (auto simp: unmet_required_def named_in_args_def filter_empty_conv)
qed

text \<open>
  With pairwise distinct parameter names the unmet required parameters are the required
  parameters beyond the last argument.
\<close>

lemma unmet_required_distinct:
  assumes "distinct (map Param.Name (Params a))"
  shows "unmet_required a args = filter Required (drop (length args) (Params a))"
proof -
  let ?l = "length args" and ?ps = "Params a"
  let ?Q = "\<lambda>p. Required p \<and> \<not> named_in_args a args (Param.Name p)"
  have "distinct (map Param.Name (take ?l ?ps) @ map Param.Name (drop ?l ?ps))"
    using assms by (metis append_take_drop_id map_append)
  then have disj: "Param.Name p \<notin> set (map Param.Name (take ?l ?ps))"
    if "p \<in> set (drop ?l ?ps)" for p
    using that by auto
  have "filter ?Q (take ?l ?ps) = []"
    by (auto simp: filter_empty_conv named_in_args_def)
  moreover have "filter ?Q (drop ?l ?ps) = filter Required (drop ?l ?ps)"
    by (rule filter_cong) (auto simp: named_in_args_def dest: disj)
  moreover have "filter ?Q ?ps = filter ?Q (take ?l ?ps) @ filter ?Q (drop ?l ?ps)"
    by (metis append_take_drop_id filter_append)
  ultimately show ?thesis unfolding unmet_required_def by simp
qed

subsection \<open>The map of provided values, read by index\<close>

lemma find_rev_upt_greatest:
  "i < m \<Longrightarrow> P i \<Longrightarrow> (\<forall>k. i < k \<and> k < m \<longrightarrow> \<not> P k) \<Longrightarrow> find P (rev [0..<m]) = Some i"
proof (induction m)
  case 0
  then show ?case by simp
next
  case (Suc m)
  show ?case
  proof (cases "i = m")
    case True
    then show ?thesis using Suc.prems by simp
  next
    case False
    then have "i < m" using Suc.prems by simp
    moreover have "\<not> P m" using Suc.prems \<open>i < m\<close> by simp
    ultimately show ?thesis using Suc by simp
  qed
qed

lemma provided_snoc:
  "bind_provided 0 (ps @ [p]) args Map.empty =
     (if length ps < length args
      then (bind_provided 0 ps args Map.empty)(Param.Name p \<mapsto> args ! length ps)
      else bind_provided 0 ps args Map.empty)"
  by (simp add: bind_provided_append)

lemma provided_find:
  "bind_provided 0 ps args Map.empty n =
     map_option (\<lambda>j. args ! j)
       (find (\<lambda>j. Param.Name (ps ! j) = n) (rev [0..<min (length ps) (length args)]))"
proof (induction ps rule: rev_induct)
  case Nil
  show ?case by simp
next
  case (snoc p ps)
  let ?k = "length ps" and ?l = "length args"
  have same: "find (\<lambda>j. Param.Name ((ps @ [p]) ! j) = n) (rev [0..<min ?k ?l]) =
              find (\<lambda>j. Param.Name (ps ! j) = n) (rev [0..<min ?k ?l])"
    by (rule find_cong) (auto simp: nth_append)
  show ?case
  proof (cases "?k < ?l")
    case True
    then have m: "min (length (ps @ [p])) ?l = Suc ?k" "min ?k ?l = ?k" by simp_all
    show ?thesis
      using True snoc.IH same unfolding provided_snoc m by (simp add: m)
  next
    case False
    then have m: "min (length (ps @ [p])) ?l = min ?k ?l" by simp
    show ?thesis
      using False snoc.IH same unfolding provided_snoc m by simp
  qed
qed

lemma param_value_named:
  "i < length (Params a) \<Longrightarrow>
   param_value (provided_of a args) (Params a ! i) = named_value (Params a) args i"
  by (simp add: param_value_def named_value_def provided_of_def provided_find
      split: option.splits)

text \<open>With pairwise distinct parameter names, binding by name is binding by position.\<close>

lemma named_value_distinct:
  assumes "distinct (map Param.Name ps)" and "i < length ps"
  shows "named_value ps args i = positional_value ps args i"
proof -
  let ?P = "\<lambda>j. Param.Name (ps ! j) = Param.Name (ps ! i)"
  let ?m = "min (length ps) (length args)"
  have uniq: "?P j \<longleftrightarrow> j = i" if "j < length ps" for j
    using assms that nth_eq_iff_index_eq [of "map Param.Name ps" j i] by simp
  show ?thesis
  proof (cases "i < length args")
    case True
    have "find ?P (rev [0..<?m]) = Some i"
      using True assms(2) uniq by (intro find_rev_upt_greatest) auto
    then show ?thesis using True by (simp add: named_value_def positional_value_def)
  next
    case False
    have "find ?P (rev [0..<?m]) = None"
      using False uniq by (auto simp: find_None_iff)
    then show ?thesis using False by (simp add: named_value_def positional_value_def)
  qed
qed

subsection \<open>Substitution as a fold over the parameter indices\<close>

lemma substitute_foldl:
  "substitute ps m command =
     foldl (\<lambda>c p. ReplaceAll c (placeholder (Param.Name p)) (param_value m p)) command ps"
  by (induction ps arbitrary: command) simp_all

lemma foldl_nth_upt:
  "foldl (\<lambda>c p. f c p) c0 ps = foldl (\<lambda>c i. f c (ps ! i)) c0 [0..<length ps]"
proof (induction ps rule: rev_induct)
  case Nil
  show ?case by simp
next
  case (snoc p ps)
  have "foldl (\<lambda>c i. f c ((ps @ [p]) ! i)) c0 [0..<length ps] =
        foldl (\<lambda>c i. f c (ps ! i)) c0 [0..<length ps]"
    by (rule foldl_cong) (auto simp: nth_append)
  then show ?case using snoc.IH by simp
qed

lemma substitute_expand:
  "substitute (Params a) (provided_of a args) command =
   expand command (Params a) (named_value (Params a) args)"
proof -
  have "substitute (Params a) (provided_of a args) command =
        foldl (\<lambda>c i. ReplaceAll c (placeholder (Param.Name (Params a ! i)))
                 (param_value (provided_of a args) (Params a ! i)))
          command [0..<length (Params a)]"
    unfolding substitute_foldl by (rule foldl_nth_upt)
  also have "\<dots> = expand command (Params a) (named_value (Params a) args)"
    unfolding expand_def by (rule foldl_cong) (auto simp: param_value_named)
  finally show ?thesis .
qed

lemma ReplaceAll_absent: "\<not> sublist old s \<Longrightarrow> ReplaceAll s old new = s"
proof (induction s old new rule: ReplaceAll.induct)
  case (1 old new)
  show ?case by simp
next
  case (2 c cs old new)
  from "2.prems" have np: "\<not> prefix old (c # cs)" and ns: "\<not> sublist old cs"
    by (auto simp: sublist_Cons_right)
  then show ?case using "2.IH"(2) by simp
qed

lemma substitute_absent:
  "\<forall>p \<in> set ps. \<not> sublist (placeholder (Param.Name p)) command \<Longrightarrow>
   substitute ps m command = command"
  by (induction ps arbitrary: command) (simp_all add: ReplaceAll_absent)

text \<open>
  The first occurrence of \<open>old\<close> is replaced, and the replacement goes on behind
  it; with the lemma above this determines \<open>ReplaceAll\<close>: every occurrence found
  from left to right is replaced.
\<close>

lemma ReplaceAll_occurrence:
  assumes "old \<noteq> []" and "\<not> sublist old (pre @ butlast old)"
  shows "ReplaceAll (pre @ old @ rest) old new = pre @ new @ ReplaceAll rest old new"
  using assms(2)
proof (induction pre)
  case Nil
  obtain c cs where oc: "old @ rest = c # cs" using assms(1) by (cases old) auto
  then have pre: "prefix old (c # cs)" by (metis prefixI)
  have "ReplaceAll (c # cs) old new = new @ ReplaceAll (drop (length old) (c # cs)) old new"
    using assms(1) pre by simp
  then have "ReplaceAll (old @ rest) old new =
             new @ ReplaceAll (drop (length old) (old @ rest)) old new"
    by (simp only: oc)
  then show ?case by simp
next
  case (Cons p ps)
  have np: "\<not> prefix old (p # ps @ old @ rest)"
  proof
    assume "prefix old (p # ps @ old @ rest)"
    moreover have "old @ rest = butlast old @ last old # rest"
      using assms(1) by (metis append_Cons append_Nil append_assoc append_butlast_last_id)
    ultimately have "prefix old (((p # ps) @ butlast old) @ (last old # rest))"
      by simp
    moreover have "length old \<le> length ((p # ps) @ butlast old)" by simp
    ultimately have "prefix old ((p # ps) @ butlast old)"
      by (metis prefix_length_prefix prefixI)
    then show False using Cons.prems by (auto simp: prefix_imp_sublist)
  qed
  have "\<not> sublist old (ps @ butlast old)"
    using Cons.prems by (auto simp: sublist_Cons_right)
  then have "ReplaceAll (ps @ old @ rest) old new = ps @ new @ ReplaceAll rest old new"
    by (rule Cons.IH)
  then show ?case using np by simp
qed

section \<open>Claims about parsing\<close>

text \<open>
  C1. Binding is positional: for every index \<open>i\<close> below the number of arguments, the
  value bound to the \<open>i\<close>-th declared parameter is the \<open>i\<close>-th argument, also when
  two parameters share a name.  The code does not do this where a name repeats: the map
  of provided values is keyed by the name, and the argument of a later parameter
  overwrites that of an earlier one.  For \<open>echo {{x}} {{x}}\<close> with two parameters
  \<open>x\<close> (as the add command declares them) and the arguments \<open>a\<close>, \<open>b\<close>, the value
  bound to the first parameter is \<open>b\<close> and the command is \<open>echo b b\<close>; binding by
  position gives \<open>echo a a\<close>.
\<close>

theorem shared_name_last_argument_wins:
  "param_value (provided_of echo_twice [''a'', ''b'']) (Params echo_twice ! 0) = ''b''
   \<and> [''a'', ''b''] ! 0 = ''a''
   \<and> ParseCommand echo_twice [''a'', ''b''] = Inr ''echo b b''
   \<and> expand (Command echo_twice) (Params echo_twice)
         (positional_value (Params echo_twice) [''a'', ''b'']) = ''echo a a''"
  by (simp add: example_defs parse_defs expand_def positional_value_def)

text \<open>
  C2. A required parameter that receives no positional argument makes \<open>ParseCommand\<close>
  fail with the missing-required-parameter error.  The code does not do this where a
  name repeats: the check asks whether the parameter's name has an entry in the map.  In
  \<open>echo_twice\<close> the second parameter is required and, with the single argument
  \<open>a\<close>, receives no positional argument; the code returns \<open>echo a a\<close> and no
  error.
\<close>

theorem shared_name_passes_required_check:
  "Required (Params echo_twice ! 1) \<and> \<not> 1 < length [''a'']
   \<and> ParseCommand echo_twice [''a''] = Inr ''echo a a''"
  by (simp add: example_defs parse_defs)

text \<open>
  C4. Expansion replaces the token of every declared parameter by the parameter's bound
  value, and an optional parameter without a positional argument is bound to its
  default.  The code does not do this where a name repeats: in \<open>echo_default\<close> the
  second parameter \<open>x\<close> is optional with default \<open>main\<close> and, with the single
  argument \<open>{{x}}\<close>, has no positional argument, yet it is bound to that argument.  The
  code returns \<open>echo {{x}} {{x}}\<close>; with the default bound, expansion gives
  \<open>echo main main\<close>.
\<close>

theorem shared_name_ignores_default:
  "\<not> Required (Params echo_default ! 0) \<and> \<not> Required (Params echo_default ! 1)
   \<and> \<not> 1 < length [''{{x}}''] \<and> Default (Params echo_default ! 1) = ''main''
   \<and> param_value (provided_of echo_default [''{{x}}'']) (Params echo_default ! 1) = ''{{x}}''
   \<and> ParseCommand echo_default [''{{x}}''] = Inr ''echo {{x}} {{x}}''
   \<and> expand (Command echo_default) (Params echo_default)
         (positional_value (Params echo_default) [''{{x}}'']) = ''echo main main''"
  by (simp add: example_defs parse_defs expand_def positional_value_def)

subsection \<open>Aliases with pairwise distinct parameter names\<close>

text \<open>
  Where no two parameters share a name the code binds by position, reports the first
  required parameter beyond the arguments (and \<open>Run\<close> then launches nothing), and
  expands with the positional values and the defaults.
\<close>

lemma positional_binding_distinct:
  assumes "distinct (map Param.Name (Params a))"
    and "i < length args" and "i < length (Params a)"
  shows "param_value (provided_of a args) (Params a ! i) = args ! i"
  using assms named_value_distinct [OF assms(1) assms(3), of args]
  by (simp add: param_value_named positional_value_def)

lemma missing_required_distinct:
  assumes "distinct (map Param.Name (Params a))"
    and "filter Required (drop (length args) (Params a)) = q # rest"
  shows "ParseCommand a args = Inl (missing_required (Param.Name q))
         \<and> Run e st d a args =
             Returns \<lparr>exit_code = - 1,
               err = Some (ParseFailure (missing_required (Param.Name q))),
               printed = [], launched = None, store_after = st, disk_after = d\<rparr>"
proof -
  have "unmet_required a args = q # rest"
    using assms by (simp add: unmet_required_distinct)
  from unmet_required_Cons [OF this] show ?thesis by (simp add: ParseCommand_def Run_def)
qed

lemma expansion_distinct:
  assumes "distinct (map Param.Name (Params a))" and "required_supplied a args"
  shows "ParseCommand a args =
         Inr (expand (Command a) (Params a) (positional_value (Params a) args))"
proof -
  have "expand (Command a) (Params a) (named_value (Params a) args) =
        expand (Command a) (Params a) (positional_value (Params a) args)"
    unfolding expand_def
    by (rule foldl_cong) (auto simp: named_value_distinct [OF assms(1)])
  then show ?thesis
    using unmet_required_Nil [OF required_supplied_unmet [OF assms(2)]]
    by (simp add: ParseCommand_def substitute_expand)
qed

lemma copy_alias_eval:
  "ParseCommand copy_alias [''a'', ''b''] = Inr ''cp a b && ls b''
   \<and> ParseCommand copy_alias [] = Inl (ParseError ''missing required parameter: src'' ''src'')
   \<and> ParseCommand copy_alias [''a''] = Inl (ParseError ''missing required parameter: dst'' ''dst'')"
  by (simp add: example_defs parse_defs)


text \<open>
  C6. Arguments beyond the number of declared parameters are ignored: parsing with
  any argument list gives the result (success or failure, and the expanded command)
  of parsing with the list cut to the number of declared parameters.
\<close>

theorem ParseCommand_extra_args_ignored:
  "ParseCommand a args = ParseCommand a (take (length (Params a)) args)"
proof -
  have "provided_of a args = provided_of a (take (length (Params a)) args)"
    unfolding provided_of_def using bind_provided_take [of 0 "Params a" args Map.empty]
    by simp
  then show ?thesis by (simp add: ParseCommand_def)
qed

theorem ParseCommand_extra_args_ignored_witness:
  "ParseCommand gp [''dev'', ''extra'', ''more''] = Inr ''git push origin dev''
   \<and> ParseCommand gc [] = ParseCommand gc (take (length (Params gc)) [])"
proof -
  have "ParseCommand gp (take (length (Params gp)) [''dev'', ''extra'', ''more''])
        = Inr ''git push origin dev''"
    by (simp add: example_defs parse_defs)
  then show ?thesis
    using ParseCommand_extra_args_ignored [of gp "[''dev'', ''extra'', ''more'']"]
      ParseCommand_extra_args_ignored [of gc "[]"]
    by simp
qed

text \<open>
  C7. If the template contains the token of no declared parameter, and no parameter
  beyond the last argument is required, \<open>ParseCommand\<close> returns the template
  unchanged.
\<close>

theorem template_without_tokens_unchanged:
  assumes "\<forall>p \<in> set (Params a). \<not> sublist (placeholder (Param.Name p)) (Command a)"
    and "required_supplied a args"
  shows "ParseCommand a args = Inr (Command a)"
  using unmet_required_Nil [OF required_supplied_unmet [OF assms(2)]] assms(1)
  by (simp add: ParseCommand_def substitute_absent)

theorem template_without_tokens_unchanged_witness:
  "\<not> sublist (placeholder ''flag'') (Command gs_flag)
   \<and> required_supplied gs_flag [''-s'']
   \<and> ParseCommand gs_flag [''-s''] = Inr ''git status''"
proof -
  have n: "\<not> sublist (placeholder ''flag'') (Command gs_flag)"
    unfolding placeholder_def gs_flag_def by code_simp
  have r: "required_supplied gs_flag [''-s'']"
    by (simp add: required_supplied_def gs_flag_def)
  have "\<forall>p \<in> set (Params gs_flag). \<not> sublist (placeholder (Param.Name p)) (Command gs_flag)"
    using n by (simp add: gs_flag_def)
  from template_without_tokens_unchanged [OF this r] n r show ?thesis
    by (simp add: gs_flag_def)
qed

section \<open>Claims about placeholder scanning\<close>

lemma not_word_char_brace [simp]: "\<not> word_char CHR ''}''"
  by (simp add: word_char_def)

lemma match_param_token:
  "match_param s = Some (w, rest) \<longleftrightarrow> token_at s 0 w \<and> rest = drop (length w + 4) s"
proof
  assume m: "match_param s = Some (w, rest)"
  define body where "body = drop 2 s"
  from m have p: "prefix ''{{'' s" by (simp add: match_param_def split: if_splits)
  then have s: "s = ''{{'' @ body" by (auto simp: body_def prefix_def)
  from m p have w: "w = takeWhile word_char body" and ne: "w \<noteq> []"
    and q: "prefix ''}}'' (dropWhile word_char body)"
    and r: "rest = drop 2 (dropWhile word_char body)"
    by (auto simp: match_param_def Let_def body_def split: if_splits)
  from q r have d: "dropWhile word_char body = ''}}'' @ rest" by (auto simp: prefix_def)
  have "body = w @ ''}}'' @ rest"
    using takeWhile_dropWhile_id [of word_char body] w d by simp
  with s have full: "s = placeholder w @ rest" by (simp add: placeholder_def)
  have "\<forall>c \<in> set w. word_char c" using w by (auto dest: set_takeWhileD)
  moreover have "length (placeholder w) = length w + 4" by (simp add: placeholder_def)
  ultimately show "token_at s 0 w \<and> rest = drop (length w + 4) s"
    using ne full by (simp add: token_at_def)
next
  assume a: "token_at s 0 w \<and> rest = drop (length w + 4) s"
  then have ne: "w \<noteq> []" and wc: "\<forall>c \<in> set w. word_char c"
    and t: "take (length w + 4) s = placeholder w" and r: "rest = drop (length w + 4) s"
    by (simp_all add: token_at_def)
  have "s = take (length w + 4) s @ drop (length w + 4) s" by simp
  with t r have s: "s = ''{{'' @ w @ ''}}'' @ rest" by (simp add: placeholder_def)
  have tw: "takeWhile word_char (w @ ''}}'' @ rest) = w"
    using wc by (simp add: takeWhile_append2)
  have dw: "dropWhile word_char (w @ ''}}'' @ rest) = ''}}'' @ rest"
    using wc by (simp add: dropWhile_append2)
  show "match_param s = Some (w, rest)"
    unfolding s match_param_def using ne tw dw by (simp add: Let_def)
qed

lemma token_at_unique: "token_at s i w \<Longrightarrow> token_at s i v \<Longrightarrow> v = w"
proof -
  assume a: "token_at s i w" and b: "token_at s i v"
  have "token_at (drop i s) 0 w" "token_at (drop i s) 0 v"
    using a b by (simp_all add: token_at_def)
  then have "match_param (drop i s) = Some (w, drop (length w + 4) (drop i s))"
    "match_param (drop i s) = Some (v, drop (length v + 4) (drop i s))"
    by (simp_all add: match_param_token)
  then show "v = w" by simp
qed

lemma token_at_Suc [simp]: "token_at (c # cs) (Suc i) w \<longleftrightarrow> token_at cs i w"
  by (simp add: token_at_def)

lemma token_at_Nil [simp]: "\<not> token_at [] i w"
  by (simp add: token_at_def placeholder_def)

lemma match_param_None: "match_param s = None \<longleftrightarrow> (\<forall>w. \<not> token_at s 0 w)"
proof
  assume "match_param s = None"
  then show "\<forall>w. \<not> token_at s 0 w"
    using match_param_token [of s] by (metis option.distinct(1))
next
  assume "\<forall>w. \<not> token_at s 0 w"
  then show "match_param s = None"
    using match_param_token [of s] by (cases "match_param s") auto
qed

lemma ExtractPlaceholders_Nil [simp]: "ExtractPlaceholders [] = []"
  by (simp add: ExtractPlaceholders_def)

lemma ExtractPlaceholders_Cons:
  "ExtractPlaceholders (c # cs) =
     (case match_param (c # cs) of
        Some (w, rest) \<Rightarrow> w # ExtractPlaceholders rest
      | None \<Rightarrow> ExtractPlaceholders cs)"
  by (simp add: ExtractPlaceholders_def split: option.splits)

lemma matches_shift:
  assumes "\<forall>w. \<not> token_at (c # cs) 0 w"
  shows "matches (c # cs) ws \<longleftrightarrow> matches cs ws"
proof
  assume "matches (c # cs) ws"
  then show "matches cs ws"
  proof cases
    case no_match
    then have "\<forall>i w. \<not> token_at cs i w" using token_at_Suc by blast
    then show ?thesis using no_match by (simp add: matches.no_match)
  next
    case (leftmost i w ws')
    from leftmost(2) assms obtain i' where i: "i = Suc i'" by (cases i) auto
    have "token_at cs i' w" using leftmost(2) i by simp
    moreover have "\<forall>j<i'. \<forall>v. \<not> token_at cs j v"
      using leftmost(3) i by (metis Suc_less_eq token_at_Suc)
    moreover have "matches (drop (i' + length w + 4) cs) ws'"
    proof -
      have "i + length w + 4 = Suc (i' + length w + 4)" using i by simp
      then have "drop (i + length w + 4) (c # cs) = drop (i' + length w + 4) cs"
        by (simp only: drop_Suc_Cons)
      then show ?thesis using leftmost(4) by simp
    qed
    ultimately show ?thesis unfolding leftmost(1) by (rule matches.leftmost)
  qed
next
  assume "matches cs ws"
  then show "matches (c # cs) ws"
  proof cases
    case no_match
    have "\<not> token_at (c # cs) i w" for i w
      using no_match(2) assms by (cases i) auto
    then show ?thesis using no_match by (simp add: matches.no_match)
  next
    case (leftmost i w ws')
    have "token_at (c # cs) (Suc i) w" using leftmost(2) by simp
    moreover have "\<forall>j<Suc i. \<forall>v. \<not> token_at (c # cs) j v"
    proof (intro allI impI)
      fix j v assume "j < Suc i"
      then show "\<not> token_at (c # cs) j v"
        using leftmost(3) assms by (cases j) auto
    qed
    moreover have "matches (drop (Suc i + length w + 4) (c # cs)) ws'"
    proof -
      have "Suc i + length w + 4 = Suc (i + length w + 4)" by simp
      then have "drop (Suc i + length w + 4) (c # cs) = drop (i + length w + 4) cs"
        by (simp only: drop_Suc_Cons)
      then show ?thesis using leftmost(4) by simp
    qed
    ultimately show ?thesis unfolding leftmost(1) by (rule matches.leftmost)
  qed
qed

lemma matches_here:
  assumes "token_at s 0 w"
  shows "matches s ws \<longleftrightarrow> (\<exists>ws'. ws = w # ws' \<and> matches (drop (length w + 4) s) ws')"
proof
  assume "matches s ws"
  then show "\<exists>ws'. ws = w # ws' \<and> matches (drop (length w + 4) s) ws'"
  proof cases
    case no_match
    then show ?thesis using assms by blast
  next
    case (leftmost i v ws')
    have i: "i = 0" using leftmost(3) assms by (cases i) auto
    then have "v = w" using leftmost(2) assms token_at_unique by blast
    then show ?thesis using leftmost i by simp
  qed
next
  assume "\<exists>ws'. ws = w # ws' \<and> matches (drop (length w + 4) s) ws'"
  then obtain ws' where ws: "ws = w # ws'" and m: "matches (drop (0 + length w + 4) s) ws'"
    by auto
  show "matches s ws"
    unfolding ws using assms _ m by (rule matches.leftmost) simp
qed

text \<open>
  C5. For every template, \<open>ExtractPlaceholders\<close> returns exactly the identifiers of
  the non-overlapping matches of the placeholder pattern from left to right, in the
  order of the text and with duplicates.
\<close>

theorem ExtractPlaceholders_leftmost_matches:
  "matches t ws \<longleftrightarrow> ws = ExtractPlaceholders t"
proof (induction t arbitrary: ws rule: FindAllStringSubmatch.induct)
  case 1
  have "matches [] ws \<longleftrightarrow> ws = []"
    by (auto elim: matches.cases intro: matches.no_match)
  then show ?case by simp
next
  case (2 c cs)
  show ?case
  proof (cases "match_param (c # cs)")
    case None
    then have "matches (c # cs) ws \<longleftrightarrow> matches cs ws"
      by (simp add: match_param_None matches_shift)
    then show ?thesis using "2.IH"(1) [OF None] None by (simp add: ExtractPlaceholders_Cons)
  next
    case (Some x)
    obtain w rest where x: "x = (w, rest)" by (cases x)
    from Some x have tok: "token_at (c # cs) 0 w" and rest: "rest = drop (length w + 4) (c # cs)"
      by (simp_all add: match_param_token)
    have "matches (c # cs) ws \<longleftrightarrow> (\<exists>ws'. ws = w # ws' \<and> matches rest ws')"
      using matches_here [OF tok] rest by simp
    also have "\<dots> \<longleftrightarrow> ws = w # ExtractPlaceholders rest"
      using "2.IH"(2) [OF Some x [symmetric]] by auto
    finally show ?thesis using Some x by (simp add: ExtractPlaceholders_Cons)
  qed
qed

theorem ExtractPlaceholders_leftmost_matches_witness:
  "matches ''{{a}} {{{b_1}}{{a}}{{}}'' [''a'', ''b_1'', ''a'']"
proof -
  have "ExtractPlaceholders ''{{a}} {{{b_1}}{{a}}{{}}'' = [''a'', ''b_1'', ''a'']"
    by (simp add: ExtractPlaceholders_def match_param_def word_char_def placeholder_def)
  then show ?thesis
    using ExtractPlaceholders_leftmost_matches
      [of "''{{a}} {{{b_1}}{{a}}{{}}''" "[''a'', ''b_1'', ''a'']"]
    by simp
qed

section \<open>Claims about execution\<close>

lemma ensureLoaded_ok:
  assumes "store_ok st" and "ensureLoaded e st d = (r, st', d')"
  shows "store_ok st' \<and> (r = None \<longrightarrow> globalConfig st' \<noteq> None)"
  using assms
  by (auto simp: ensureLoaded_def loadInternal_def store_ok_def Let_def
      split: if_splits option.splits prod.splits)

text \<open>The invariant holds initially, and \<open>AddAlias\<close> keeps it as well.\<close>

lemma store_ok_fresh: "store_ok \<lparr>globalConfig = None, loaded = False\<rparr>"
  by (simp add: store_ok_def)

lemma AddAlias_store_ok:
  assumes ok: "store_ok st" and a: "AddAlias e st d alias = Returns (r, st', d')"
  shows "store_ok st'"
proof -
  obtain r0 st0 d0 where el: "ensureLoaded e st d = (r0, st0, d0)"
    by (cases "ensureLoaded e st d") auto
  from ensureLoaded_ok [OF ok el] a el show ?thesis
    by (auto simp: AddAlias_def store_ok_def Let_def split: option.splits if_splits prod.splits)
qed

lemma Get_ok:
  assumes "store_ok st"
  shows "\<exists>st' d'. store_ok st' \<and>
           ((\<exists>msg. Get e st d = ((None, Some msg), st', d'))
            \<or> (\<exists>c. Get e st d = ((Some c, None), st', d')))"
proof -
  obtain r st' d' where el: "ensureLoaded e st d = (r, st', d')"
    by (cases "ensureLoaded e st d") auto
  from ensureLoaded_ok [OF assms el] show ?thesis
    using el by (cases r) (auto simp: Get_def)
qed

lemma resolve_shell_returns:
  assumes "store_ok st"
  shows "\<exists>shell st' d'. resolve_shell e st d opts = Returns (shell, st', d') \<and> store_ok st'"
proof (cases "ExecuteOptions.Shell opts = []")
  case True
  from Get_ok [OF assms, of e d] show ?thesis
    using True by (auto simp: resolve_shell_def)
next
  case False
  then show ?thesis using assms by (simp add: resolve_shell_def)
qed

lemma resolve_verbose_returns:
  assumes "store_ok st"
  shows "\<exists>verbose st' d'. resolve_verbose e st d opts = Returns (verbose, st', d')
           \<and> store_ok st'"
proof (cases "ExecuteOptions.Verbose opts")
  case False
  from Get_ok [OF assms, of e d] show ?thesis
    using False by (auto simp: resolve_verbose_def)
next
  case True
  then show ?thesis using assms by (auto simp: resolve_verbose_def)
qed

lemma Execute_run_command:
  assumes "store_ok st"
  shows "\<exists>shell st1 d1 verbose st2 d2.
           resolve_shell e st d opts = Returns (shell, st1, d1) \<and>
           resolve_verbose e st1 d1 opts = Returns (verbose, st2, d2) \<and>
           Execute e st d command opts =
             Returns (run_command e st2 d2 shell verbose command opts)"
proof -
  from resolve_shell_returns [OF assms] obtain shell st1 d1 where
    rs: "resolve_shell e st d opts = Returns (shell, st1, d1)" and ok: "store_ok st1"
    by blast
  from resolve_verbose_returns [OF ok] obtain verbose st2 d2 where
    rv: "resolve_verbose e st1 d1 opts = Returns (verbose, st2, d2)" by blast
  have "Execute e st d command opts =
        Returns (run_command e st2 d2 shell verbose command opts)"
    by (simp add: Execute_def rs rv)
  with rs rv show ?thesis by blast
qed

lemma run_command_disk [simp]:
  "disk_after (run_command e st d shell verbose command opts) = d"
  by (simp add: run_command_def Let_def split: option.splits run_error.splits)

lemma run_command_launched:
  "launched (run_command e st d shell verbose command opts) = None \<longleftrightarrow> DryRun opts"
  by (simp add: run_command_def Let_def split: option.splits run_error.splits)

lemma run_command_error:
  "err (run_command e st d shell verbose command opts) \<noteq> None \<longleftrightarrow>
   (\<exists>argv msg. launched (run_command e st d shell verbose command opts) = Some argv
      \<and> child_of e d argv = NotStarted msg)"
  by (auto simp: run_command_def Let_def cmd_Run_def
      split: option.splits run_error.splits child.splits if_splits)

lemma run_command_minus_one:
  "err (run_command e st d shell verbose command opts) \<noteq> None \<Longrightarrow>
   exit_code (run_command e st d shell verbose command opts) = - 1"
  by (auto simp: run_command_def Let_def cmd_Run_def
      split: option.splits run_error.splits child.splits if_splits)

lemma run_command_exited:
  "launched (run_command e st d shell verbose command opts) = Some argv \<Longrightarrow>
   child_of e d argv = Exited n \<Longrightarrow>
   exit_code (run_command e st d shell verbose command opts) = n
   \<and> err (run_command e st d shell verbose command opts) = None"
  by (auto simp: run_command_def Let_def cmd_Run_def
      split: option.splits run_error.splits child.splits if_splits)

lemma createDefaultConfig_Settings [simp]:
  "Settings.Verbose (Settings (createDefaultConfig e)) = False"
  "Settings.Shell (Settings (createDefaultConfig e)) = GetDefaultShell e"
  by (simp_all add: createDefaultConfig_def)

text \<open>
  C3. \<open>Execute\<close> returns an error exactly when it ran a command whose child
  process could not be started, and the exit code is then \<open>-1\<close>; when the child
  runs and exits with status \<open>n\<close>, zero or not, \<open>Execute\<close> returns \<open>n\<close> and no
  error.  A command is run unless the call is a dry run.
\<close>

theorem Execute_error_iff_not_started:
  assumes "store_ok st"
  shows "\<exists>r. Execute e st d command opts = Returns r
           \<and> (launched r = None \<longleftrightarrow> DryRun opts)
           \<and> (err r \<noteq> None \<longleftrightarrow>
                (\<exists>argv msg. launched r = Some argv
                   \<and> child_of e (disk_after r) argv = NotStarted msg))
           \<and> (err r \<noteq> None \<longrightarrow> exit_code r = - 1)
           \<and> (\<forall>argv n. launched r = Some argv \<and> child_of e (disk_after r) argv = Exited n \<longrightarrow>
                 exit_code r = n \<and> err r = None)"
proof -
  from Execute_run_command [OF assms] obtain shell verbose st2 d2 where
    ex: "Execute e st d command opts =
         Returns (run_command e st2 d2 shell verbose command opts)"
    by blast
  let ?r = "run_command e st2 d2 shell verbose command opts"
  have l1: "launched ?r = None \<longleftrightarrow> DryRun opts"
    by (rule run_command_launched)
  have l2: "err ?r \<noteq> None \<longleftrightarrow>
      (\<exists>argv msg. launched ?r = Some argv \<and> child_of e (disk_after ?r) argv = NotStarted msg)"
    using run_command_error [of e st2 d2 shell verbose command opts] by simp
  have l3: "err ?r \<noteq> None \<longrightarrow> exit_code ?r = - 1"
    using run_command_minus_one by blast
  have l4: "\<forall>argv n. launched ?r = Some argv \<and> child_of e (disk_after ?r) argv = Exited n \<longrightarrow>
      exit_code ?r = n \<and> err ?r = None"
    using run_command_exited [of e st2 d2 shell verbose command opts] by simp
  show ?thesis
    unfolding ex by (intro exI [where x = ?r] conjI refl l1 l2 l3 l4)
qed

theorem Execute_error_iff_not_started_witness:
  "store_ok fresh_store
   \<and> child_of posix_env empty_disk [''/bin/bash'', ''-c'', ''exit 2''] = Exited 2
   \<and> Execute posix_env fresh_store empty_disk ''exit 2'' opts_bash =
       Returns \<lparr>exit_code = 2, err = None, printed = [''$ exit 2'' @ newline],
         launched = Some [''/bin/bash'', ''-c'', ''exit 2''], store_after = fresh_store,
         disk_after = empty_disk\<rparr>
   \<and> child_of posix_env empty_disk [''/nonexistent'', ''-c'', ''true'']
       = NotStarted ''fork/exec /nonexistent: no such file or directory''
   \<and> Execute posix_env fresh_store empty_disk ''true'' opts_missing =
       Returns \<lparr>exit_code = - 1,
         err = Some (Errorf
           ''failed to execute command: fork/exec /nonexistent: no such file or directory''),
         printed = [''$ true'' @ newline],
         launched = Some [''/nonexistent'', ''-c'', ''true''], store_after = fresh_store,
         disk_after = empty_disk\<rparr>"
  using Execute_error_iff_not_started [of fresh_store posix_env empty_disk "''exit 2''" opts_bash]
    Execute_error_iff_not_started [of fresh_store posix_env empty_disk "''true''" opts_missing]
  by (simp add: store_ok_def fresh_store_def posix_env_def opts_bash_def opts_missing_def
      Execute_def resolve_shell_def resolve_verbose_def run_command_def cmd_Run_def)

text \<open>
  C8. With \<open>DryRun\<close> set, \<open>Execute\<close> prints the command line it was given as its last
  output, returns exit code \<open>0\<close> and no error, and launches no process.
\<close>

theorem Execute_dry_run:
  assumes "store_ok st" and "DryRun opts"
  shows "\<exists>r. Execute e st d command opts = Returns r
           \<and> exit_code r = 0 \<and> err r = None \<and> launched r = None
           \<and> last (printed r) = ''[dry-run] Would execute: '' @ command @ newline"
proof -
  from Execute_run_command [OF assms(1)] obtain shell verbose st2 d2 where
    ex: "Execute e st d command opts =
         Returns (run_command e st2 d2 shell verbose command opts)"
    by blast
  show ?thesis unfolding ex using assms(2) by (simp add: run_command_def)
qed

theorem Execute_dry_run_witness:
  "store_ok fresh_store \<and> DryRun dry_opts
   \<and> ParseCommand echo_x [''hi''] = Inr ''echo hi''
   \<and> RunWithOptions posix_env fresh_store empty_disk echo_x [''hi''] dry_opts =
       Returns \<lparr>exit_code = 0, err = None,
         printed = [''[dry-run] Would execute: echo hi'' @ newline],
         launched = None, store_after = loaded_store, disk_after = saved_disk\<rparr>"
  using Execute_dry_run [of fresh_store dry_opts posix_env empty_disk "''echo hi''"]
  by (simp add: store_ok_def fresh_store_def dry_opts_def echo_x_def param_x_def parse_defs
      RunWithOptions_def execute_defs loaded_store_def posix_env_def Let_def
      empty_disk_def saved_disk_def)

lemma resolve_shell_Verbose [simp]:
  "resolve_shell e st d (opts\<lparr>ExecuteOptions.Verbose := v\<rparr>) = resolve_shell e st d opts"
  by (auto simp: resolve_shell_def split: prod.splits option.splits)











section \<open>Claims about the alias store\<close>

text \<open>
  C10. In a loaded configuration state, \<open>AddAlias\<close> returns an error and leaves the
  store and the file system unchanged when a stored alias already has the name of the
  new one; otherwise the new alias is appended at the end of the list, behind the
  stored aliases in their order.
\<close>

theorem AddAlias_unique_or_appended:
  assumes "loaded st" and "globalConfig st = Some cfg"
  shows "((\<exists>b \<in> set (Aliases cfg). Alias.Name b = Alias.Name alias) \<longrightarrow>
            (\<exists>msg. AddAlias e st d alias = Returns (Some msg, st, d)))
         \<and> (\<not> (\<exists>b \<in> set (Aliases cfg). Alias.Name b = Alias.Name alias) \<longrightarrow>
            (\<exists>r d'. AddAlias e st d alias =
               Returns (r, st\<lparr>globalConfig := Some (cfg\<lparr>Aliases := Aliases cfg @ [alias]\<rparr>)\<rparr>,
                        d')))"
  using assms
  by (auto simp: AddAlias_def ensureLoaded_def list_ex_iff Let_def split: prod.splits)

theorem AddAlias_unique_or_appended_witness:
  "loaded loaded_store \<and> globalConfig loaded_store = Some (createDefaultConfig posix_env)
   \<and> AddAlias posix_env loaded_store saved_disk gp =
       Returns (Some (already_exists ''gp''), loaded_store, saved_disk)
   \<and> AddAlias posix_env loaded_store saved_disk new_alias =
       Returns (None, loaded_store\<lparr>globalConfig :=
         Some ((createDefaultConfig posix_env)\<lparr>Aliases :=
           Aliases (createDefaultConfig posix_env) @ [new_alias]\<rparr>)\<rparr>, saved_disk)"
proof -
  have l: "loaded loaded_store"
    and g: "globalConfig loaded_store = Some (createDefaultConfig posix_env)"
    by (simp_all add: loaded_store_def)
  have s: "saveInternal posix_env (loaded_store\<lparr>globalConfig := Some c\<rparr>) saved_disk
           = (None, saved_disk)" for c
    by (simp add: saveInternal_def EnsureConfigDir_def posix_env_def saved_disk_def)
  have n1: "\<exists>b \<in> set (Aliases (createDefaultConfig posix_env)). Alias.Name b = Alias.Name gp"
    by (simp add: createDefaultConfig_def gp_def)
  have n2: "\<not> (\<exists>b \<in> set (Aliases (createDefaultConfig posix_env)).
               Alias.Name b = Alias.Name new_alias)"
    by (simp add: createDefaultConfig_def new_alias_def)
  from AddAlias_unique_or_appended [OF l g, of gp posix_env saved_disk] n1
  have "AddAlias posix_env loaded_store saved_disk gp =
        Returns (Some (already_exists ''gp''), loaded_store, saved_disk)"
    by (auto simp: AddAlias_def ensureLoaded_def l g list_ex_iff gp_def)
  moreover from AddAlias_unique_or_appended [OF l g, of new_alias posix_env saved_disk] n2
  have "AddAlias posix_env loaded_store saved_disk new_alias =
       Returns (None, loaded_store\<lparr>globalConfig :=
         Some ((createDefaultConfig posix_env)\<lparr>Aliases :=
           Aliases (createDefaultConfig posix_env) @ [new_alias]\<rparr>)\<rparr>, saved_disk)"
    by (auto simp: AddAlias_def ensureLoaded_def l g list_ex_iff Let_def s)
  ultimately show ?thesis using l g by simp
qed

end
